theory Spec2Isabelle
  imports Main
begin

section \<open>Strings\<close>

text \<open>
  Python's \<open>str\<close> is modelled as \<open>string\<close>: a list of 8-bit characters holding the
  UTF-8 bytes of the text. The model agrees with Python on every text whose white space,
  digits and label letters are ASCII; the three typographic characters that
  \<open>parse_last_updated\<close> normalises are written as their UTF-8 byte sequences.
\<close>

abbreviation NL :: char where
  \<open>NL \<equiv> CHR 0x0A\<close>

text \<open>\<open>str.isspace\<close> and the class \<open>\s\<close> on ASCII: tab, line feed, vertical tab, form
  feed, carriage return, the four separators 0x1C..0x1F and the blank.\<close>

definition is_space :: \<open>char \<Rightarrow> bool\<close> where
  \<open>is_space c \<longleftrightarrow>
     c \<in> set [CHR 0x09, CHR 0x0A, CHR 0x0B, CHR 0x0C, CHR 0x0D,
                CHR 0x1C, CHR 0x1D, CHR 0x1E, CHR 0x1F, CHR 0x20]\<close>

definition is_digit :: \<open>char \<Rightarrow> bool\<close> where
  \<open>is_digit c \<longleftrightarrow> c \<in> set ''0123456789''\<close>

text \<open>\<open>s.strip()\<close>\<close>

definition strip :: \<open>string \<Rightarrow> string\<close> where
  \<open>strip s = rev (dropWhile is_space (rev (dropWhile is_space s)))\<close>

text \<open>\<open>s[a:b]\<close> for \<open>0 \<le> a\<close>, \<open>0 \<le> b\<close>\<close>

definition slice :: \<open>string \<Rightarrow> nat \<Rightarrow> nat \<Rightarrow> string\<close> where
  \<open>slice s a b = take (b - a) (drop a s)\<close>

text \<open>\<open>s.startswith(p)\<close>\<close>

fun startswith :: \<open>string \<Rightarrow> string \<Rightarrow> bool\<close> where
  \<open>startswith s [] = True\<close>
| \<open>startswith [] (p # ps) = False\<close>
| \<open>startswith (c # cs) (p # ps) = (c = p \<and> startswith cs ps)\<close>

text \<open>\<open>s.split('\n')\<close> and \<open>'\n'.join(ls)\<close>\<close>

fun split_lines :: \<open>string \<Rightarrow> string list\<close> where
  \<open>split_lines [] = [[]]\<close>
| \<open>split_lines (c # cs) =
     (if c = NL then [] # split_lines cs
      else (case split_lines cs of
              [] \<Rightarrow> [[c]]
            | l # ls \<Rightarrow> (c # l) # ls))\<close>


text \<open>ASCII lower case, for patterns compiled with \<open>re.IGNORECASE\<close>\<close>

definition lower :: \<open>char \<Rightarrow> char\<close> where
  \<open>lower c =
     (case map_of (zip ''ABCDEFGHIJKLMNOPQRSTUVWXYZ'' ''abcdefghijklmnopqrstuvwxyz'') c of
        None \<Rightarrow> c
      | Some l \<Rightarrow> l)\<close>

section \<open>Regular expressions\<close>

text \<open>
  The fragment of Python's \<open>re\<close> that the patterns of the program use. Every repetition
  in them is over a single character class, so \<open>Many\<close> (greedy \<open>*\<close>) and \<open>Few\<close> (lazy
  \<open>*?\<close>) take a class. \<open>Bol\<close> and \<open>Eol\<close> are \<open>^\<close> and \<open>$\<close> under \<open>re.MULTILINE\<close> (every
  anchor in the program is compiled so); \<open>NotBehind\<close> and \<open>NotAhead\<close> are the one-character
  look-arounds \<open>(?<!c)\<close> and \<open>(?!c)\<close>.
\<close>

datatype regex =
    Chr \<open>char \<Rightarrow> bool\<close>
  | Eps
  | Seq regex regex
  | Alt regex regex
  | Many \<open>char \<Rightarrow> bool\<close>
  | Few \<open>char \<Rightarrow> bool\<close>
  | Group nat regex
  | Bol
  | Eol
  | NotBehind \<open>char \<Rightarrow> bool\<close>
  | NotAhead \<open>char \<Rightarrow> bool\<close>

text \<open>A cursor is the character before the current position (if any) and the text from
  the position on; the groups are the captured texts, latest first.\<close>

type_synonym cursor = \<open>char option \<times> string\<close>
type_synonym groups = \<open>(nat \<times> string) list\<close>

text \<open>The cursors after 0, 1, 2, ... characters of a class, shortest first.\<close>

fun runs :: \<open>(char \<Rightarrow> bool) \<Rightarrow> cursor \<Rightarrow> cursor list\<close> where
  \<open>runs p (pv, []) = [(pv, [])]\<close>
| \<open>runs p (pv, x # xs) = (pv, x # xs) # (if p x then runs p (Some x, xs) else [])\<close>

text \<open>
  \<open>ms r c g\<close> lists every way \<open>r\<close> matches at cursor \<open>c\<close>, in the order in which the
  backtracking matcher of \<open>re\<close> tries them: the head of the list is the match Python
  reports.
\<close>

fun ms :: \<open>regex \<Rightarrow> cursor \<Rightarrow> groups \<Rightarrow> (cursor \<times> groups) list\<close> where
  \<open>ms (Chr p) c g =
     (case snd c of
        [] \<Rightarrow> []
      | x # xs \<Rightarrow> if p x then [((Some x, xs), g)] else [])\<close>
| \<open>ms Eps c g = [(c, g)]\<close>
| \<open>ms (Seq a b) c g = concat (map (\<lambda>(c', g'). ms b c' g') (ms a c g))\<close>
| \<open>ms (Alt a b) c g = ms a c g @ ms b c g\<close>
| \<open>ms (Many p) c g = map (\<lambda>c'. (c', g)) (rev (runs p c))\<close>
| \<open>ms (Few p) c g = map (\<lambda>c'. (c', g)) (runs p c)\<close>
| \<open>ms (Group n r) c g =
     map (\<lambda>(c', g'). (c', (n, take (length (snd c) - length (snd c')) (snd c)) # g'))
       (ms r c g)\<close>
| \<open>ms Bol c g = (if fst c = None \<or> fst c = Some NL then [(c, g)] else [])\<close>
| \<open>ms Eol c g = (case snd c of [] \<Rightarrow> [(c, g)] | x # xs \<Rightarrow> if x = NL then [(c, g)] else [])\<close>
| \<open>ms (NotBehind p) c g =
     (case fst c of None \<Rightarrow> [(c, g)] | Some x \<Rightarrow> if p x then [] else [(c, g)])\<close>
| \<open>ms (NotAhead p) c g =
     (case snd c of [] \<Rightarrow> [(c, g)] | x # xs \<Rightarrow> if p x then [] else [(c, g)])\<close>

text \<open>Pattern notation: a literal, a literal under \<open>IGNORECASE\<close>, a sequence, \<open>+\<close>,
  \<open>+?\<close> and \<open>?\<close>.\<close>

definition lit :: \<open>string \<Rightarrow> regex\<close> where
  \<open>lit s = foldr (\<lambda>a r. Seq (Chr (\<lambda>c. c = a)) r) s Eps\<close>

definition lit_i :: \<open>string \<Rightarrow> regex\<close> where
  \<open>lit_i s = foldr (\<lambda>a r. Seq (Chr (\<lambda>c. lower c = lower a)) r) s Eps\<close>

definition seqs :: \<open>regex list \<Rightarrow> regex\<close> where
  \<open>seqs rs = foldr Seq rs Eps\<close>

definition Many1 :: \<open>(char \<Rightarrow> bool) \<Rightarrow> regex\<close> where
  \<open>Many1 p = Seq (Chr p) (Many p)\<close>

definition Few1 :: \<open>(char \<Rightarrow> bool) \<Rightarrow> regex\<close> where
  \<open>Few1 p = Seq (Chr p) (Few p)\<close>

definition Opt :: \<open>regex \<Rightarrow> regex\<close> where
  \<open>Opt r = Alt r Eps\<close>

text \<open>A match object: \<open>m.start()\<close>, \<open>m.end()\<close> and the groups.\<close>

record rmatch =
  m_start :: nat
  m_end :: nat
  m_groups :: groups

definition group :: \<open>rmatch \<Rightarrow> nat \<Rightarrow> string option\<close> where
  \<open>group m n = map_of (m_groups m) n\<close>

text \<open>
  The scanner behind \<open>finditer\<close>, \<open>sub\<close> and \<open>findall\<close>, on a text of length \<open>n\<close>: the
  leftmost match from the cursor on, then on from its end. After an empty match the
  scanner must advance (\<open>adv\<close>): at that position only a non-empty match counts.
\<close>

definition candidates :: \<open>regex \<Rightarrow> bool \<Rightarrow> cursor \<Rightarrow> (cursor \<times> groups) list\<close> where
  \<open>candidates r adv c =
     (if adv then filter (\<lambda>(c', g). length (snd c') < length (snd c)) (ms r c [])
      else ms r c [])\<close>

lemma runs_shorter: \<open>c' \<in> set (runs p c) \<Longrightarrow> length (snd c') \<le> length (snd c)\<close>
proof (induction p c rule: runs.induct)
  case (1 p pv)
  then show ?case by simp
next
  case (2 p pv x xs)
  then show ?case by (cases \<open>p x\<close>) auto
qed

lemma ms_shorter: \<open>(c', g') \<in> set (ms r c g) \<Longrightarrow> length (snd c') \<le> length (snd c)\<close>
proof (induction r arbitrary: c g c' g')
  case (Chr p)
  then show ?case by (cases c) (auto split: list.splits if_splits)
next
  case (Seq a b)
  then obtain c1 g1 where \<open>(c1, g1) \<in> set (ms a c g)\<close> \<open>(c', g') \<in> set (ms b c1 g1)\<close>
    by auto
  with Seq.IH show ?case by (meson le_trans)
next
  case (Many p)
  then show ?case by (auto dest: runs_shorter)
next
  case (Few p)
  then show ?case by (auto dest: runs_shorter)
next
  case (Eol)
  then show ?case by (auto split: list.splits if_splits)
next
  case (NotBehind p)
  then show ?case by (auto split: option.splits if_splits)
next
  case (NotAhead p)
  then show ?case by (auto split: list.splits if_splits)
qed (auto split: if_splits)

lemma candidates_shorter:
  \<open>(c', g') \<in> set (candidates r adv c) \<Longrightarrow> length (snd c') \<le> length (snd c)\<close>
  by (auto simp: candidates_def dest: ms_shorter split: if_splits)

lemma candidates_advance:
  \<open>(c', g') \<in> set (candidates r True c) \<Longrightarrow> length (snd c') < length (snd c)\<close>
  by (auto simp: candidates_def)

function finditer_from :: \<open>regex \<Rightarrow> nat \<Rightarrow> bool \<Rightarrow> cursor \<Rightarrow> rmatch list\<close> where
  \<open>finditer_from r n adv c =
     (case candidates r adv c of
        (c', g) # _ \<Rightarrow>
          \<lparr>m_start = n - length (snd c), m_end = n - length (snd c'), m_groups = g\<rparr>
            # finditer_from r n (length (snd c') = length (snd c)) c'
      | [] \<Rightarrow>
          (case snd c of
             [] \<Rightarrow> []
           | x # xs \<Rightarrow> finditer_from r n False (Some x, xs)))\<close>
  by pat_completeness auto
termination
proof (relation \<open>measure (\<lambda>(r, n, adv, c). 2 * length (snd c) + (if adv then 0 else 1))\<close>)
  show \<open>wf (measure (\<lambda>(r, n, adv, c). 2 * length (snd c) + (if adv then 0 else 1)))\<close>
    by simp
next
  fix r :: regex and n :: nat and adv :: bool and c :: cursor and x21 x22 xa y
  assume a: \<open>candidates r adv c = x21 # x22\<close> \<open>(xa, y) = x21\<close>
  then have m: \<open>(xa, y) \<in> set (candidates r adv c)\<close> by simp
  have le: \<open>length (snd xa) \<le> length (snd c)\<close> using candidates_shorter [OF m] .
  have lt: \<open>length (snd xa) < length (snd c)\<close> if \<open>adv\<close>
    using candidates_advance [of xa y r c] m that by simp
  show \<open>((r, n, length (snd xa) = length (snd c), xa), r, n, adv, c)
          \<in> measure (\<lambda>(r, n, adv, c). 2 * length (snd c) + (if adv then 0 else 1))\<close>
    using le lt by (cases adv) auto
next
  fix r :: regex and n :: nat and adv :: bool and c :: cursor and x21 x22
  assume \<open>candidates r adv c = []\<close> \<open>snd c = x21 # x22\<close>
  then show \<open>((r, n, False, Some x21, x22), r, n, adv, c)
          \<in> measure (\<lambda>(r, n, adv, c). 2 * length (snd c) + (if adv then 0 else 1))\<close>
    by simp
qed

declare finditer_from.simps [simp del]

text \<open>\<open>re.finditer(r, s)\<close>, \<open>re.search(r, s)\<close>, \<open>re.findall(r, s)\<close> for a pattern without
  groups, and \<open>re.sub(r, repl, s)\<close> with the replacement as a function of the match.\<close>

definition finditer :: \<open>regex \<Rightarrow> string \<Rightarrow> rmatch list\<close> where
  \<open>finditer r s = finditer_from r (length s) False (None, s)\<close>

definition search :: \<open>regex \<Rightarrow> string \<Rightarrow> rmatch option\<close> where
  \<open>search r s = (case finditer r s of [] \<Rightarrow> None | m # _ \<Rightarrow> Some m)\<close>


fun sub_build :: \<open>(rmatch \<Rightarrow> string) \<Rightarrow> string \<Rightarrow> nat \<Rightarrow> rmatch list \<Rightarrow> string\<close> where
  \<open>sub_build repl s i [] = drop i s\<close>
| \<open>sub_build repl s i (m # rest) =
     slice s i (m_start m) @ repl m @ sub_build repl s (m_end m) rest\<close>

definition sub :: \<open>regex \<Rightarrow> (rmatch \<Rightarrow> string) \<Rightarrow> string \<Rightarrow> string\<close> where
  \<open>sub r repl s = sub_build repl s 0 (finditer r s)\<close>

text \<open>A group in a replacement template (\<open>\1\<close>: empty when the group took no part) and
  in an f-string (\<open>{m.group(1)}\<close>: the text \<open>None\<close> then).\<close>

definition template_group :: \<open>rmatch \<Rightarrow> nat \<Rightarrow> string\<close> where
  \<open>template_group m n = (case group m n of None \<Rightarrow> [] | Some t \<Rightarrow> t)\<close>

definition fstring :: \<open>string option \<Rightarrow> string\<close> where
  \<open>fstring v = (case v of None \<Rightarrow> ''None'' | Some t \<Rightarrow> t)\<close>

section \<open>Inline spans\<close>

definition any_char :: \<open>char \<Rightarrow> bool\<close> where
  \<open>any_char c \<longleftrightarrow> True\<close>

definition dot :: \<open>char \<Rightarrow> bool\<close> where
  \<open>dot c \<longleftrightarrow> c \<noteq> NL\<close>

text \<open>\<^verbatim>\<open>_md_code = re.compile(r'`([^`]+)`')\<close>\<close>

definition md_code :: regex where
  \<open>md_code = seqs [lit ''`'', Group 1 (Many1 (\<lambda>c. c \<noteq> CHR ''`'')), lit ''`'']\<close>

text \<open>\<^verbatim>\<open>_md_strong = re.compile(r'\*\*([^*][\s\S]*?)\*\*|__([^_][\s\S]*?)__')\<close>\<close>

definition md_strong :: regex where
  \<open>md_strong =
     Alt (seqs [lit ''**'', Group 1 (Seq (Chr (\<lambda>c. c \<noteq> CHR ''*'')) (Few any_char)), lit ''**''])
         (seqs [lit ''__'', Group 2 (Seq (Chr (\<lambda>c. c \<noteq> CHR ''_'')) (Few any_char)), lit ''__''])\<close>

text \<open>\<^verbatim>\<open>_md_em = re.compile(r'(?<!\*)\*([^*][\s\S]*?)\*(?!\*)|_([^_][\s\S]*?)_')\<close>\<close>

definition md_em :: regex where
  \<open>md_em =
     Alt (seqs [NotBehind (\<lambda>c. c = CHR ''*''), lit ''*'',
                Group 1 (Seq (Chr (\<lambda>c. c \<noteq> CHR ''*'')) (Few any_char)),
                lit ''*'', NotAhead (\<lambda>c. c = CHR ''*'')])
         (seqs [lit ''_'', Group 2 (Seq (Chr (\<lambda>c. c \<noteq> CHR ''_'')) (Few any_char)), lit ''_''])\<close>

text \<open>\<^verbatim>\<open>_md_link = re.compile(r'\[([^\]]+)\]\(([^)]+)\)')\<close>\<close>

definition md_link :: regex where
  \<open>md_link =
     seqs [lit ''['', Group 1 (Many1 (\<lambda>c. c \<noteq> CHR '']'')), lit '']('',
           Group 2 (Many1 (\<lambda>c. c \<noteq> CHR '')'')), lit '')'']\<close>

text \<open>\<^verbatim>\<open>_md_two_space_break = re.compile(r'  \n')\<close>\<close>

definition md_two_space_break :: regex where
  \<open>md_two_space_break = lit [CHR '' '', CHR '' '', NL]\<close>

definition code_repl :: \<open>rmatch \<Rightarrow> string\<close> where
  \<open>code_repl m =
     ''<code class='bg-gray-100 px-1 py-0.5 rounded text-sm'>'' @ fstring (group m 1) @ ''</code>''\<close>

definition strong_sub :: \<open>rmatch \<Rightarrow> string\<close> where
  \<open>strong_sub m =
     (let inner = (if group m 1 \<noteq> None then group m 1 else group m 2)
      in ''<strong>'' @ fstring inner @ ''</strong>'')\<close>

definition em_sub :: \<open>rmatch \<Rightarrow> string\<close> where
  \<open>em_sub m =
     (let inner = (if group m 1 \<noteq> None then group m 1 else group m 2)
      in ''<em>'' @ fstring inner @ ''</em>'')\<close>

definition link_repl :: \<open>rmatch \<Rightarrow> string\<close> where
  \<open>link_repl m =
     ''<a href="'' @ template_group m 2 @ ''" class="text-primary hover:text-blue-600 underline">''
       @ template_group m 1 @ ''</a>''\<close>

definition break_repl :: \<open>rmatch \<Rightarrow> string\<close> where
  \<open>break_repl m = ''<br>'' @ [NL]\<close>

definition convert_inline_markdown :: \<open>string \<Rightarrow> string\<close> where
  \<open>convert_inline_markdown text0 =
     (if text0 = [] then text0
      else
        let text1 = sub md_code code_repl text0;
            text2 = sub md_strong strong_sub text1;
            text3 = sub md_em em_sub text2;
            text4 = sub md_link link_repl text3;
            text5 = sub md_two_space_break break_repl text4
        in text5)\<close>

section \<open>Blocks\<close>

text \<open>The local variables of the line loop of \<open>convert_markdown_to_html\<close>.\<close>

record pstate =
  in_list :: bool
  in_blockquote :: bool
  list_items :: \<open>string list\<close>
  blockquote_items :: \<open>string list\<close>
  result_lines :: \<open>string list\<close>

definition init_state :: pstate where
  \<open>init_state =
     \<lparr>in_list = False, in_blockquote = False, list_items = [], blockquote_items = [],
      result_lines = []\<rparr>\<close>

text \<open>
  The lines a list and a blockquote are rendered to. The source writes the two renderings
  out at each of its three flush sites; the sites differ only in the class of the opening
  \<open>ul\<close> tag and in the class of the blockquote's paragraphs, which are the parameters here.
\<close>

definition render_list :: \<open>string \<Rightarrow> string list \<Rightarrow> string list\<close> where
  \<open>render_list ul_open items =
     [ul_open] @ map (\<lambda>item. ''<li>'' @ convert_inline_markdown item @ ''</li>'') items
       @ [''</ul>'']\<close>

definition render_blockquote :: \<open>string \<Rightarrow> string list \<Rightarrow> string list\<close> where
  \<open>render_blockquote p_open items =
     [''<div class="bg-gradient-to-r from-blue-50 to-indigo-50 border-l-4 border-blue-600 rounded-r-lg px-4 py-2 mb-4 shadow-sm">'',
      ''<div class="flex items-start">'',
      ''<div class="flex-shrink-0 mr-3">'',
      ''<svg class="w-5 h-5 text-blue-500 mt-0.5" fill="currentColor" viewBox="0 0 20 20">'',
      ''<path fill-rule="evenodd" d="M18 10a8 8 0 11-16 0 8 8 0 0116 0zm-7-4a1 1 0 11-2 0 1 1 0 012 0zM9 9a1 1 0 000 2v3a1 1 0 001 1h1a1 1 0 100-2v-3a1 1 0 00-1-1H9z" clip-rule="evenodd"></path>'',
      ''</svg>'',
      ''</div>'',
      ''<div class="flex-1">'']
     @ map (\<lambda>item. p_open @ convert_inline_markdown item @ ''</p>'') items
     @ [''</div>'', ''</div>'', ''</div>'']\<close>

definition ul_outside :: string where
  \<open>ul_outside = ''<ul class="list-disc list-outside mb-4 space-y-1 pl-5">''\<close>

definition ul_inside :: string where
  \<open>ul_inside = ''<ul class="list-disc list-inside mb-4 space-y-1">''\<close>

definition p_tight :: string where
  \<open>p_tight = ''<p class="text-gray-800 font-medium leading-tight mb-0">''\<close>

definition p_relaxed :: string where
  \<open>p_relaxed = ''<p class="text-gray-800 font-medium leading-relaxed">''\<close>

text \<open>The two guarded flushes, as they stand in the blank-line branch, in the
  regular-content branch and after the loop.\<close>

definition flush_list :: \<open>string \<Rightarrow> pstate \<Rightarrow> pstate\<close> where
  \<open>flush_list ul_open st =
     (if in_list st \<and> list_items st \<noteq> []
      then st\<lparr>result_lines := result_lines st @ render_list ul_open (list_items st),
              list_items := [], in_list := False\<rparr>
      else st)\<close>

definition flush_blockquote :: \<open>string \<Rightarrow> pstate \<Rightarrow> pstate\<close> where
  \<open>flush_blockquote p_open st =
     (if in_blockquote st \<and> blockquote_items st \<noteq> []
      then st\<lparr>result_lines := result_lines st @ render_blockquote p_open (blockquote_items st),
              blockquote_items := [], in_blockquote := False\<rparr>
      else st)\<close>

text \<open>\<open>items[-1] += ' ' + line\<close>, under the guard \<open>if items:\<close>\<close>

definition extend_last :: \<open>string list \<Rightarrow> string \<Rightarrow> string list\<close> where
  \<open>extend_last items line =
     (if items \<noteq> [] then butlast items @ [last items @ '' '' @ line] else items)\<close>

text \<open>The branches of the \<open>if\<close>/\<open>elif\<close> chain of the loop body, in the order of the
  source, and the branch a (stripped) line takes in a state.\<close>

datatype branch =
    List_item
  | List_item_bare
  | Quote_item
  | Quote_item_bare
  | List_continue
  | Quote_continue
  | Blank_close
  | Regular

definition branch_of :: \<open>pstate \<Rightarrow> string \<Rightarrow> branch\<close> where
  \<open>branch_of st line =
     (if startswith line ''- '' then List_item
      else if startswith line ''-'' then List_item_bare
      else if startswith line ''> '' then Quote_item
      else if startswith line ''>'' then Quote_item_bare
      else if in_list st \<and> line \<noteq> [] then List_continue
      else if in_blockquote st \<and> line \<noteq> [] then Quote_continue
      else if (in_list st \<or> in_blockquote st) \<and> line = [] then Blank_close
      else Regular)\<close>

definition open_list :: \<open>pstate \<Rightarrow> pstate\<close> where
  \<open>open_list st = (if \<not> in_list st then st\<lparr>in_list := True, list_items := []\<rparr> else st)\<close>

definition open_blockquote :: \<open>pstate \<Rightarrow> pstate\<close> where
  \<open>open_blockquote st =
     (if \<not> in_blockquote st then st\<lparr>in_blockquote := True, blockquote_items := []\<rparr> else st)\<close>

definition add_list_item :: \<open>string \<Rightarrow> pstate \<Rightarrow> pstate\<close> where
  \<open>add_list_item item st = st\<lparr>list_items := list_items st @ [item]\<rparr>\<close>

definition add_blockquote_item :: \<open>string \<Rightarrow> pstate \<Rightarrow> pstate\<close> where
  \<open>add_blockquote_item item st = st\<lparr>blockquote_items := blockquote_items st @ [item]\<rparr>\<close>

definition regular_content :: \<open>string \<Rightarrow> pstate \<Rightarrow> pstate\<close> where
  \<open>regular_content line st =
     (let st1 = flush_list ul_inside st;
          st2 = flush_blockquote p_tight st1
      in if line \<noteq> []
         then st2\<lparr>result_lines :=
                   result_lines st2 @ [''<p class="mb-4">'' @ convert_inline_markdown line @ ''</p>'']\<rparr>
         else st2)\<close>

text \<open>One pass of the loop body: \<open>line = line.strip()\<close>, then the chain.\<close>

definition process_line :: \<open>pstate \<Rightarrow> string \<Rightarrow> pstate\<close> where
  \<open>process_line st raw =
     (let line = strip raw in
      case branch_of st line of
        List_item \<Rightarrow> add_list_item (drop 2 line) (open_list st)
      | List_item_bare \<Rightarrow> add_list_item (strip (drop 1 line)) (open_list st)
      | Quote_item \<Rightarrow> add_blockquote_item (drop 2 line) (open_blockquote st)
      | Quote_item_bare \<Rightarrow> add_blockquote_item (strip (drop 1 line)) (open_blockquote st)
      | List_continue \<Rightarrow> st\<lparr>list_items := extend_last (list_items st) line\<rparr>
      | Quote_continue \<Rightarrow> st\<lparr>blockquote_items := extend_last (blockquote_items st) line\<rparr>
      | Blank_close \<Rightarrow> flush_blockquote p_tight (flush_list ul_outside st)
      | Regular \<Rightarrow> regular_content line st)\<close>

definition run_lines :: \<open>string list \<Rightarrow> pstate\<close> where
  \<open>run_lines ls = foldl process_line init_state ls\<close>

text \<open>\<^verbatim>\<open>re.sub(r'^###\s+(.+?)$', r'<h3 class="...">\1</h3>', text, flags=re.MULTILINE)\<close>\<close>

definition h3_line :: regex where
  \<open>h3_line = seqs [Bol, lit ''###'', Many1 is_space, Group 1 (Few1 dot), Eol]\<close>

definition h3_repl :: \<open>rmatch \<Rightarrow> string\<close> where
  \<open>h3_repl m =
     ''<h3 class="text-lg font-medium text-gray-900 mt-4 mb-2">'' @ template_group m 1 @ ''</h3>''\<close>

definition html_lines :: \<open>string \<Rightarrow> string list\<close> where
  \<open>html_lines text0 =
     (let text1 = sub h3_line h3_repl text0;
          st = run_lines (split_lines text1)
      in result_lines (flush_blockquote p_relaxed (flush_list ul_outside st)))\<close>


section \<open>Sections\<close>








section \<open>Dates\<close>








subsection \<open>The library's \<open>strptime\<close>\<close>

text \<open>
  \<open>datetime.strptime\<close> compiles the format to a regular expression (under
  \<open>IGNORECASE\<close>), matches it at the start of the string, refuses a match that leaves
  text over, and builds the date, refusing one that is not in the calendar. The
  directives are those of the program's five formats, with the month names of the C
  locale; group 1 is \<open>%d\<close>, 2 is \<open>%m\<close>, 3 is \<open>%Y\<close>, 4 is \<open>%b\<close>, 5 is \<open>%B\<close>.
\<close>

definition one_of :: \<open>string \<Rightarrow> regex\<close> where
  \<open>one_of cs = Chr (\<lambda>c. c \<in> set cs)\<close>










subsection \<open>\<open>_try_parse_date\<close>\<close>





subsection \<open>\<open>parse_last_updated\<close>\<close>






text \<open>The tail the three label patterns share: \<^verbatim>\<open>\s*[:\-]?\s*(.+?)\s*$\<close>\<close>

definition label_tail :: \<open>regex list\<close> where
  \<open>label_tail =
     [Many is_space, Opt (one_of '':-''), Many is_space, Group 1 (Few1 dot), Many is_space, Eol]\<close>

text \<open>\<^verbatim>\<open>r'(?im)^\s*last\s*updated\s*[:\-]?\s*(.+?)\s*$'\<close>\<close>

definition pat_last_updated :: regex where
  \<open>pat_last_updated =
     seqs ([Bol, Many is_space, lit_i ''last'', Many is_space, lit_i ''updated''] @ label_tail)\<close>

text \<open>\<^verbatim>\<open>r'(?im)^\s*updated\s*[:\-]?\s*(.+?)\s*$'\<close>\<close>

definition pat_updated :: regex where
  \<open>pat_updated = seqs ([Bol, Many is_space, lit_i ''updated''] @ label_tail)\<close>

text \<open>\<^verbatim>\<open>r'(?im)^\s*effective\s*(?:date|as\s*of)\s*[:\-]?\s*(.+?)\s*$'\<close>\<close>

definition pat_effective :: regex where
  \<open>pat_effective =
     seqs ([Bol, Many is_space, lit_i ''effective'', Many is_space,
            Alt (lit_i ''date'') (seqs [lit_i ''as'', Many is_space, lit_i ''of''])] @ label_tail)\<close>

definition patterns :: \<open>regex list\<close> where
  \<open>patterns = [pat_last_updated, pat_updated, pat_effective]\<close>

text \<open>\<^verbatim>\<open>r'(\d{1,2}[./-]\d{1,2}[./-]\d{4})'\<close>\<close>

definition pat_numeric :: regex where
  \<open>pat_numeric =
     Group 1 (seqs [Chr is_digit, Opt (Chr is_digit), one_of ''./-'',
                    Chr is_digit, Opt (Chr is_digit), one_of ''./-'',
                    Chr is_digit, Chr is_digit, Chr is_digit, Chr is_digit])\<close>

text \<open>The loop over the label patterns: the first pattern that matches anywhere in the
  text returns its match.\<close>

fun first_label :: \<open>regex list \<Rightarrow> string \<Rightarrow> rmatch option\<close> where
  \<open>first_label [] s = None\<close>
| \<open>first_label (pat # rest) s =
     (case search pat s of
        Some m \<Rightarrow> Some m
      | None \<Rightarrow> first_label rest s)\<close>


section \<open>The block parser on concrete bodies\<close>



text \<open>
  Claim C2, at the inputs where the program departs from it. The pre-pass rewrites the
  line \<open>### T\<close> to a level-3 heading element, but the rewritten line then goes through the
  line loop like any other line: alone it takes the regular-content branch and leaves
  the parser wrapped in a paragraph element, and after the list item \<open>- a\<close> it takes the
  list-continuation branch and is merged into the item.
\<close>

theorem C2_heading_line_wrapped_or_merged:
  \<open>html_lines ''### T'' =
     [''<p class="mb-4"><h3 class="text-lg font-medium text-gray-900 mt-4 mb-2">T</h3></p>'']
   \<and> html_lines ''- a\<newline>### T'' =
     [''<ul class="list-disc list-outside mb-4 space-y-1 pl-5">'',
      ''<li>a <h3 class="text-lg font-medium text-gray-900 mt-4 mb-2">T</h3></li>'',
      ''</ul>'']\<close>
  by code_simp

section \<open>The inline converter on concrete spans\<close>

text \<open>The nested delimiters of claim C3: one strong element with the emphasis element
  inside it, and no delimiter left.\<close>

lemma nested_bold_italic:
  \<open>convert_inline_markdown ''**bold *and* nested**'' = ''<strong>bold <em>and</em> nested</strong>''\<close>
  by code_simp

text \<open>
  Claim C3, at the inputs where the program departs from it. The passes run one after
  the other over the whole text, so the inner text of a code element that the first pass
  emitted is matched again by the later ones: the italic pass rewrites \<open>_b_\<close> inside the
  code element of \<open>a_b_c\<close>, and the bold pass rewrites \<open>**x**\<close> inside a code element.
\<close>

theorem C3_code_text_rewritten_by_later_passes:
  \<open>convert_inline_markdown ''`a_b_c`'' =
     ''<code class='bg-gray-100 px-1 py-0.5 rounded text-sm'>a<em>b</em>c</code>''
   \<and> convert_inline_markdown ''`**x**`'' =
     ''<code class='bg-gray-100 px-1 py-0.5 rounded text-sm'><strong>x</strong></code>''\<close>
  by code_simp

section \<open>Plain text passes the inline converter unchanged\<close>

text \<open>\<open>p in s\<close>\<close>

fun contains :: \<open>string \<Rightarrow> string \<Rightarrow> bool\<close> where
  \<open>contains [] p = (p = [])\<close>
| \<open>contains (c # cs) p = (startswith (c # cs) p \<or> contains cs p)\<close>

text \<open>A text without Markdown delimiters: no backquote, asterisk, underscore or opening
  bracket, and no two blanks before a line feed.\<close>

definition plain_text :: \<open>string \<Rightarrow> bool\<close> where
  \<open>plain_text s \<longleftrightarrow>
     CHR ''`'' \<notin> set s \<and> CHR ''*'' \<notin> set s \<and> CHR ''_'' \<notin> set s \<and> CHR ''['' \<notin> set s
     \<and> \<not> contains s [CHR '' '', CHR '' '', NL]\<close>

lemma finditer_from_no_match:
  assumes \<open>\<And>k pv'. ms r (pv', drop k t) [] = []\<close>
  shows \<open>finditer_from r n adv (pv, t) = []\<close>
  using assms
proof (induction t arbitrary: pv adv)
  case Nil
  have \<open>ms r (pv, []) [] = []\<close> using Nil [of pv 0] by simp
  then show ?case by (simp add: finditer_from.simps candidates_def)
next
  case (Cons x xs)
  have h: \<open>ms r (pv, x # xs) [] = []\<close> using Cons.prems [of pv 0] by simp
  have \<open>\<And>k pv'. ms r (pv', drop k xs) [] = []\<close> using Cons.prems [of _ \<open>Suc k\<close> for k] by simp
  then have \<open>finditer_from r n False (Some x, xs) = []\<close> by (rule Cons.IH)
  with h show ?case by (simp add: finditer_from.simps [of r n adv] candidates_def)
qed

lemma sub_no_match:
  assumes \<open>\<And>k pv'. ms r (pv', drop k s) [] = []\<close>
  shows \<open>sub r repl s = s\<close>
  using finditer_from_no_match [of r s, OF assms] by (simp add: sub_def finditer_def)

lemma ms_lit_absent:
  \<open>a \<notin> set t \<Longrightarrow> ms (Seq (lit (a # p)) r) (pv, t) g = []\<close>
  by (cases t) (auto simp: lit_def)

lemma ms_lit_mismatch:
  \<open>\<not> startswith t p \<Longrightarrow> ms (lit p) (pv, t) g = []\<close>
proof (induction p arbitrary: t pv)
  case Nil
  then show ?case by simp
next
  case (Cons a p)
  show ?case
  proof (cases t)
    case Nil
    then show ?thesis by (simp add: lit_def)
  next
    case (Cons x xs)
    with Cons.prems Cons.IH [of xs \<open>Some x\<close>] show ?thesis
      by (auto simp: lit_def)
  qed
qed

lemma not_contains_drop:
  \<open>\<not> contains s p \<Longrightarrow> p \<noteq> [] \<Longrightarrow> \<not> startswith (drop k s) p\<close>
proof (induction s arbitrary: k)
  case Nil
  then show ?case by (cases p) auto
next
  case (Cons c cs)
  then show ?case by (cases k) auto
qed

lemma absent_drop: \<open>a \<notin> set s \<Longrightarrow> a \<notin> set (drop k s)\<close>
  by (meson in_set_dropD)

lemma ms_alt: \<open>ms (Alt a b) c g = ms a c g @ ms b c g\<close>
  by simp

lemma ms_not_behind_seq: \<open>ms r c g = [] \<Longrightarrow> ms (Seq (NotBehind q) r) c g = []\<close>
  by (simp split: option.splits)

lemma sub_md_code_plain: \<open>CHR ''`'' \<notin> set s \<Longrightarrow> sub md_code repl s = s\<close>
  by (rule sub_no_match) (simp del: ms.simps add: md_code_def seqs_def ms_lit_absent absent_drop)

lemma sub_md_strong_plain:
  \<open>CHR ''*'' \<notin> set s \<Longrightarrow> CHR ''_'' \<notin> set s \<Longrightarrow> sub md_strong repl s = s\<close>
  by (rule sub_no_match)
    (simp del: ms.simps add: md_strong_def seqs_def ms_lit_absent absent_drop ms_alt)

lemma sub_md_em_plain:
  \<open>CHR ''*'' \<notin> set s \<Longrightarrow> CHR ''_'' \<notin> set s \<Longrightarrow> sub md_em repl s = s\<close>
  by (rule sub_no_match)
    (simp del: ms.simps add: md_em_def seqs_def ms_lit_absent ms_not_behind_seq absent_drop ms_alt
     )

lemma sub_md_link_plain: \<open>CHR ''['' \<notin> set s \<Longrightarrow> sub md_link repl s = s\<close>
  by (rule sub_no_match) (simp del: ms.simps add: md_link_def seqs_def ms_lit_absent absent_drop)

lemma sub_md_break_plain:
  \<open>\<not> contains s [CHR '' '', CHR '' '', NL] \<Longrightarrow> sub md_two_space_break repl s = s\<close>
  by (rule sub_no_match)
    (simp del: ms.simps add: md_two_space_break_def ms_lit_mismatch not_contains_drop)

text \<open>
  Claim C8. On a text without Markdown delimiters the inline converter is the identity,
  so converting its own output again changes nothing; the empty text is such a text and
  is returned as it is.
\<close>

theorem C8_plain_text_unchanged:
  assumes \<open>plain_text s\<close>
  shows \<open>convert_inline_markdown s = s
     \<and> convert_inline_markdown (convert_inline_markdown s) = convert_inline_markdown s\<close>
proof -
  have \<open>convert_inline_markdown s = s\<close>
    using assms
    by (simp add: convert_inline_markdown_def plain_text_def sub_md_code_plain sub_md_strong_plain
        sub_md_em_plain sub_md_link_plain sub_md_break_plain)
  then show ?thesis by simp
qed

theorem C8_plain_text_unchanged_witness:
  \<open>plain_text [] \<and> convert_inline_markdown [] = []
   \<and> plain_text ''<em>Plain</em> text - no spans.''
   \<and> convert_inline_markdown ''<em>Plain</em> text - no spans.'' = ''<em>Plain</em> text - no spans.''\<close>
proof -
  have e: \<open>plain_text []\<close>
    by (simp add: plain_text_def)
  have p: \<open>plain_text ''<em>Plain</em> text - no spans.''\<close>
    by (simp add: plain_text_def)
  show ?thesis
    using e p C8_plain_text_unchanged [OF e] C8_plain_text_unchanged [OF p] by simp
qed

section \<open>The line loop of the block parser\<close>




















section \<open>The section splitter\<close>











lemma candidates_subset: \<open>set (candidates r adv c) \<subseteq> set (ms r c [])\<close>
  by (auto simp: candidates_def)

lemma finditer_from_matches:
  \<open>m \<in> set (finditer_from r n adv c) \<Longrightarrow>
     \<exists>c0 c' g. (c', g) \<in> set (ms r c0 []) \<and> length (snd c0) \<le> length (snd c)
       \<and> m = \<lparr>m_start = n - length (snd c0), m_end = n - length (snd c'), m_groups = g\<rparr>\<close>
proof (induction r n adv c rule: finditer_from.induct)
  case (1 r n adv c)
  show ?case
  proof (cases \<open>candidates r adv c\<close>)
    case Nil
    show ?thesis
    proof (cases \<open>snd c\<close>)
      case Nil': Nil
      with Nil "1.prems" show ?thesis by (simp add: finditer_from.simps [of r n adv c])
    next
      case (Cons x xs)
      with Nil "1.prems" have \<open>m \<in> set (finditer_from r n False (Some x, xs))\<close>
        by (simp add: finditer_from.simps [of r n adv c])
      from "1.IH"(1) [OF Nil Cons this]
      obtain c0 c1 g1 where h: \<open>(c1, g1) \<in> set (ms r c0 [])\<close> \<open>length (snd c0) \<le> length xs\<close>
        \<open>m = \<lparr>m_start = n - length (snd c0), m_end = n - length (snd c1), m_groups = g1\<rparr>\<close>
        by auto
      from h(2) Cons have \<open>length (snd c0) \<le> length (snd c)\<close> by simp
      with h(1,3) show ?thesis by blast
    qed
  next
    case (Cons cg rest)
    obtain c' g where cg: \<open>cg = (c', g)\<close> by (cases cg)
    have mem: \<open>(c', g) \<in> set (ms r c [])\<close> using Cons cg candidates_subset [of r adv c] by auto
    have le: \<open>length (snd c') \<le> length (snd c)\<close> using ms_shorter [OF mem] .
    from "1.prems" Cons cg consider
      (here) \<open>m = \<lparr>m_start = n - length (snd c), m_end = n - length (snd c'), m_groups = g\<rparr>\<close>
      | (later) \<open>m \<in> set (finditer_from r n (length (snd c') = length (snd c)) c')\<close>
      by (auto simp: finditer_from.simps [of r n adv c])
    then show ?thesis
    proof cases
      case here
      with mem show ?thesis by blast
    next
      case later
      from "1.IH"(2) [OF Cons cg [symmetric] later]
      obtain c0 c1 g1 where h: \<open>(c1, g1) \<in> set (ms r c0 [])\<close> \<open>length (snd c0) \<le> length (snd c')\<close>
        \<open>m = \<lparr>m_start = n - length (snd c0), m_end = n - length (snd c1), m_groups = g1\<rparr>\<close>
        by blast
      from h(2) le have \<open>length (snd c0) \<le> length (snd c)\<close> by simp
      with h(1,3) show ?thesis by blast
    qed
  qed
qed








section \<open>The digit fallback\<close>













section \<open>The grammars of a date\<close>

subsection \<open>What a match consumes and captures\<close>



fun has_group :: \<open>regex \<Rightarrow> bool\<close> where
  \<open>has_group (Group n r) = True\<close>
| \<open>has_group (Seq a b) = (has_group a \<or> has_group b)\<close>
| \<open>has_group (Alt a b) = (has_group a \<or> has_group b)\<close>
| \<open>has_group r = False\<close>

lemma ms_no_group: \<open>\<not> has_group r \<Longrightarrow> (c', g') \<in> set (ms r c g) \<Longrightarrow> g' = g\<close>
proof (induction r arbitrary: c g c' g')
  case (Seq a b)
  then obtain c1 g1 where \<open>(c1, g1) \<in> set (ms a c g)\<close> \<open>(c', g') \<in> set (ms b c1 g1)\<close>
    by auto
  moreover from Seq.prems(1) have \<open>\<not> has_group a\<close> \<open>\<not> has_group b\<close> by simp_all
  ultimately have \<open>g1 = g\<close> \<open>g' = g1\<close>
    using Seq.IH(1) [of c1 g1 c g] Seq.IH(2) [of c' g' c1 g1] by blast+
  then show ?case by simp
qed (auto split: list.splits option.splits if_splits)


lemma has_group_lit_i [simp]: \<open>\<not> has_group (lit_i p)\<close>
  by (induction p) (simp_all add: lit_i_def)















subsection \<open>What the five formats accept\<close>





















section \<open>Finding the date line\<close>

text \<open>A pattern every match of which captures group \<open>n\<close>.\<close>

fun captures :: \<open>nat \<Rightarrow> regex \<Rightarrow> bool\<close> where
  \<open>captures n (Group k r) = (k = n \<or> captures n r)\<close>
| \<open>captures n (Seq a b) = (captures n a \<or> captures n b)\<close>
| \<open>captures n (Alt a b) = (captures n a \<and> captures n b)\<close>
| \<open>captures n r = False\<close>

lemma ms_keeps_group:
  \<open>map_of g n \<noteq> None \<Longrightarrow> (c', g') \<in> set (ms r c g) \<Longrightarrow> map_of g' n \<noteq> None\<close>
proof (induction r arbitrary: c g c' g')
  case (Seq a b)
  from Seq.prems(2) obtain c1 g1 where
    m: \<open>(c1, g1) \<in> set (ms a c g)\<close> \<open>(c', g') \<in> set (ms b c1 g1)\<close>
    by auto
  from Seq.IH(1) [OF Seq.prems(1) m(1)] have \<open>map_of g1 n \<noteq> None\<close> .
  from Seq.IH(2) [OF this m(2)] show ?case .
next
  case (Alt a b)
  from Alt.prems(2) consider \<open>(c', g') \<in> set (ms a c g)\<close> | \<open>(c', g') \<in> set (ms b c g)\<close>
    by auto
  then show ?case
    using Alt.IH(1) [OF Alt.prems(1)] Alt.IH(2) [OF Alt.prems(1)] by cases blast+
next
  case (Group k r)
  from Group.prems(2) obtain g1 t where m: \<open>(c', g1) \<in> set (ms r c g)\<close> \<open>g' = (k, t) # g1\<close>
    by auto
  from Group.IH [OF Group.prems(1) m(1)] m(2) show ?case by simp
next
  case (Chr p)
  from ms_no_group [OF _ Chr.prems(2)] Chr.prems(1) show ?case by simp
next
  case Eps
  from ms_no_group [OF _ Eps.prems(2)] Eps.prems(1) show ?case by simp
next
  case (Many p)
  from ms_no_group [OF _ Many.prems(2)] Many.prems(1) show ?case by simp
next
  case (Few p)
  from ms_no_group [OF _ Few.prems(2)] Few.prems(1) show ?case by simp
next
  case Bol
  from ms_no_group [OF _ Bol.prems(2)] Bol.prems(1) show ?case by simp
next
  case Eol
  from ms_no_group [OF _ Eol.prems(2)] Eol.prems(1) show ?case by simp
next
  case (NotBehind p)
  from ms_no_group [OF _ NotBehind.prems(2)] NotBehind.prems(1) show ?case by simp
next
  case (NotAhead p)
  from ms_no_group [OF _ NotAhead.prems(2)] NotAhead.prems(1) show ?case by simp
qed

lemma ms_captures:
  \<open>captures n r \<Longrightarrow> (c', g') \<in> set (ms r c g) \<Longrightarrow> map_of g' n \<noteq> None\<close>
proof (induction r arbitrary: c g c' g')
  case (Seq a b)
  from Seq.prems(2) obtain c1 g1 where
    m: \<open>(c1, g1) \<in> set (ms a c g)\<close> \<open>(c', g') \<in> set (ms b c1 g1)\<close>
    by auto
  show ?case
  proof (cases \<open>captures n a\<close>)
    case True
    from Seq.IH(1) [OF True m(1)] have \<open>map_of g1 n \<noteq> None\<close> .
    from ms_keeps_group [OF this m(2)] show ?thesis .
  next
    case False
    with Seq.prems(1) have \<open>captures n b\<close> by simp
    from Seq.IH(2) [OF this m(2)] show ?thesis .
  qed
next
  case (Alt a b)
  from Alt.prems(1) have ab: \<open>captures n a\<close> \<open>captures n b\<close> by simp_all
  from Alt.prems(2) consider \<open>(c', g') \<in> set (ms a c g)\<close> | \<open>(c', g') \<in> set (ms b c g)\<close>
    by auto
  then show ?case
    using Alt.IH(1) [OF ab(1)] Alt.IH(2) [OF ab(2)] by cases blast+
next
  case (Group k r)
  from Group.prems(2) obtain g1 t where m: \<open>(c', g1) \<in> set (ms r c g)\<close> \<open>g' = (k, t) # g1\<close>
    by auto
  show ?case
  proof (cases \<open>k = n\<close>)
    case True
    with m(2) show ?thesis by simp
  next
    case False
    with Group.prems(1) have \<open>captures n r\<close> by simp
    from Group.IH [OF this m(1)] m(2) show ?thesis by simp
  qed
qed simp_all

lemma search_captures:
  assumes \<open>captures n r\<close> and \<open>search r s = Some m\<close>
  shows \<open>\<exists>t. group m n = Some t\<close>
proof -
  from assms(2) have \<open>m \<in> set (finditer_from r (length s) False (None, s))\<close>
    by (auto simp: search_def finditer_def split: list.splits)
  from finditer_from_matches [OF this] obtain c0 c' g where
    \<open>(c', g) \<in> set (ms r c0 [])\<close> \<open>m_groups m = g\<close>
    by auto
  with ms_captures [OF assms(1)] show ?thesis
    by (auto simp: group_def)
qed

lemma captures_patterns:
  \<open>captures 1 pat_last_updated\<close> \<open>captures 1 pat_updated\<close> \<open>captures 1 pat_effective\<close>
  \<open>captures 1 pat_numeric\<close>
  by (simp_all add: pat_last_updated_def pat_updated_def pat_effective_def pat_numeric_def
      label_tail_def seqs_def)

text \<open>So \<open>m.group(1)\<close> is never \<open>None\<close> where \<open>parse_last_updated\<close> reads it.\<close>

lemma first_label_captures:
  assumes \<open>first_label patterns s = Some m\<close>
  shows \<open>\<exists>t. group m 1 = Some t\<close>
proof -
  from assms consider \<open>search pat_last_updated s = Some m\<close> | \<open>search pat_updated s = Some m\<close>
    | \<open>search pat_effective s = Some m\<close>
    by (auto simp: patterns_def split: option.splits)
  then show ?thesis
    by cases (erule search_captures [OF captures_patterns(1)]
      search_captures [OF captures_patterns(2)] search_captures [OF captures_patterns(3)])+
qed

lemma numeric_captures: \<open>search pat_numeric s = Some m \<Longrightarrow> \<exists>t. group m 1 = Some t\<close>
  by (rule search_captures [OF captures_patterns(4)])








end
